theory Spec2Isabelle
  imports Main "HOL-Library.AList"
begin

section \<open>Strings and names\<close>

text \<open>
  A Go string is modelled as the list of its characters. Every delimiter the code looks
  for (\<open>*\<close>, \<open>?\<close>, \<open>!\<close>, \<open>@\<close>, the regexp and LIKE metacharacters) is an ASCII
  character, so on ASCII text the byte-wise functions of package \<open>strings\<close> and the
  rune-wise matching of package \<open>regexp\<close> see the same sequence.

  \<open>Name\<close> is a Go string type: the source concatenates to it (\<open>expanded += "!*"\<close>) and
  converts a \<open>string\<close> to it (\<open>Name(sqlNickname)\<close>).
\<close>

type_synonym Name = string

definition backslash :: char where
  "backslash = CHR 0x5C"

definition linefeed :: char where
  "linefeed = CHR 0x0A"

text \<open>
  Modelled from the spec: \<open>Name.String\<close> is not under src/. The spec's Name is
  case-preserving and exposes its original form; \<open>String\<close> is that form.
\<close>

definition String :: "Name \<Rightarrow> string" where
  "String name = name"

text \<open>
  Modelled from the spec: \<open>Name.ToLower\<close> is not under src/. The spec's folding:
  lowercase ASCII, then map \<open>{\<close> to \<open>[\<close>, \<open>|\<close> to \<open>\\<close>, \<open>}\<close> to \<open>]\<close> and
  \<open>^\<close> to \<open>~\<close>.
\<close>

definition ascii_lower :: "char \<Rightarrow> char" where
  "ascii_lower c =
     (let n = (of_char c :: nat)
      in if 65 \<le> n \<and> n \<le> 90 then char_of (n + 32) else c)"

definition fold_char :: "char \<Rightarrow> char" where
  "fold_char c =
     (let l = ascii_lower c in
      if l = CHR ''{'' then CHR ''[''
      else if l = CHR ''|'' then backslash
      else if l = CHR ''}'' then CHR '']''
      else if l = CHR ''^'' then CHR ''~''
      else l)"

definition ToLower :: "Name \<Rightarrow> Name" where
  "ToLower name = map fold_char name"

subsection \<open>Package strings: Contains, Split, Join\<close>

text \<open>\<open>strings.Contains(s, sub)\<close> for a one-character \<open>sub\<close>.\<close>

definition Contains :: "string \<Rightarrow> char \<Rightarrow> bool" where
  "Contains s c = (c \<in> set s)"

text \<open>
  \<open>strings.Split(s, sep)\<close> for a one-character separator, which is how both calls of
  \<open>setRegexp\<close> use it. The result is never empty: a string without the separator gives
  the one-element slice holding the string itself.
\<close>

fun Split :: "string \<Rightarrow> char \<Rightarrow> string list" where
  "Split [] sep = [[]]"
| "Split (x # xs) sep =
     (if x = sep then [] # Split xs sep
      else (case Split xs sep of
              [] \<Rightarrow> [[x]]
            | p # ps \<Rightarrow> (x # p) # ps))"

fun Join :: "string list \<Rightarrow> string \<Rightarrow> string" where
  "Join [] sep = []"
| "Join [a] sep = a"
| "Join (a # b # rest) sep = a @ sep @ Join (b # rest) sep"

section \<open>Package regexp, the fragment setRegexp generates\<close>

text \<open>
  \<open>regexp.QuoteMeta\<close> puts a backslash before each of the bytes
  \<open>\.+*?()|[]{}^$\<close> and copies every other byte.
\<close>

definition specialBytes :: "char list" where
  "specialBytes = backslash # ''.+*?()|[]{}^$''"

definition quote_char :: "char \<Rightarrow> string" where
  "quote_char c = (if c \<in> set specialBytes then [backslash, c] else [c])"

fun QuoteMeta :: "string \<Rightarrow> string" where
  "QuoteMeta [] = []"
| "QuoteMeta (c # cs) = quote_char c @ QuoteMeta cs"

text \<open>
  A compiled expression is a list of alternatives (the operands of \<open>|\<close>), each a
  sequence of items. \<open>Dot\<close> is Go's \<open>.\<close> under the default flags: any character but
  line feed. \<open>Bol\<close> and \<open>Eol\<close> are \<open>^\<close> and \<open>$\<close> without the multi-line flag: the
  beginning and the end of the text.
\<close>

datatype cls = One char | Dot

datatype item = Ch cls | Star cls | Bol | Eol

type_synonym regex = "item list list"

datatype compile_error = ErrSyntax

definition add_item :: "item \<Rightarrow> regex option \<Rightarrow> regex option" where
  "add_item it r =
     (case r of
        None \<Rightarrow> None
      | Some [] \<Rightarrow> None
      | Some (a # alts) \<Rightarrow> Some ((it # a) # alts))"

definition add_alt :: "regex option \<Rightarrow> regex option" where
  "add_alt r = (case r of None \<Rightarrow> None | Some alts \<Rightarrow> Some ([] # alts))"

text \<open>
  The parser follows the precedence of Go's syntax: alternation binds weakest, then
  concatenation, then the postfix \<open>*\<close>. It covers literals, a backslash before a
  punctuation character, \<open>.\<close>, \<open>^\<close>, \<open>$\<close>, \<open>|\<close> and \<open>*\<close> after a character or
  \<open>.\<close>. Anything else (groups, classes, other repetitions, a trailing backslash, a
  repetition with nothing to repeat) gives \<open>None\<close>; \<open>parse_setRegexp_expr\<close> below
  shows that no expression built by \<open>setRegexp\<close> does.
\<close>

fun parse :: "string \<Rightarrow> regex option" where
  "parse [] = Some [[]]"
| "parse (c # s) =
     (if c = CHR ''|'' then add_alt (parse s)
      else if c = CHR ''^'' then add_item Bol (parse s)
      else if c = CHR ''$'' then add_item Eol (parse s)
      else if c = CHR ''.'' then
        (case s of
           [] \<Rightarrow> add_item (Ch Dot) (parse [])
         | d # s' \<Rightarrow>
             if d = CHR ''*'' then add_item (Star Dot) (parse s')
             else add_item (Ch Dot) (parse (d # s')))
      else if c = backslash then
        (case s of
           [] \<Rightarrow> None
         | e # t \<Rightarrow>
             if e \<in> set specialBytes then
               (case t of
                  [] \<Rightarrow> add_item (Ch (One e)) (parse [])
                | d # s' \<Rightarrow>
                    if d = CHR ''*'' then add_item (Star (One e)) (parse s')
                    else add_item (Ch (One e)) (parse (d # s')))
             else None)
      else if c \<in> set specialBytes then None
      else
        (case s of
           [] \<Rightarrow> add_item (Ch (One c)) (parse [])
         | d # s' \<Rightarrow>
             if d = CHR ''*'' then add_item (Star (One c)) (parse s')
             else add_item (Ch (One c)) (parse (d # s'))))"

definition Compile :: "string \<Rightarrow> compile_error + regex" where
  "Compile expr = (case parse expr of None \<Rightarrow> Inl ErrSyntax | Some r \<Rightarrow> Inr r)"

fun cls_ok :: "cls \<Rightarrow> char \<Rightarrow> bool" where
  "cls_ok (One c) x = (x = c)"
| "cls_ok Dot x = (x \<noteq> linefeed)"

text \<open>
  \<open>match_items is b s\<close>: the items match a prefix of \<open>s\<close>; \<open>b\<close> says whether \<open>s\<close>
  starts at the beginning of the text.
\<close>

fun match_items :: "item list \<Rightarrow> bool \<Rightarrow> string \<Rightarrow> bool" where
  "match_items [] b s = True"
| "match_items (Ch c # is) b [] = False"
| "match_items (Ch c # is) b (x # xs) = (cls_ok c x \<and> match_items is False xs)"
| "match_items (Star c # is) b [] = match_items is b []"
| "match_items (Star c # is) b (x # xs) =
     (match_items is b (x # xs) \<or> (cls_ok c x \<and> match_items (Star c # is) False xs))"
| "match_items (Bol # is) b s = (b \<and> match_items is b s)"
| "match_items (Eol # is) b s = (s = [] \<and> match_items is b s)"

text \<open>A match may start at any position of the text.\<close>

fun search_from :: "item list \<Rightarrow> bool \<Rightarrow> string \<Rightarrow> bool" where
  "search_from is b [] = match_items is b []"
| "search_from is b (x # xs) = (match_items is b (x # xs) \<or> search_from is False xs)"

text \<open>\<open>Regexp.MatchString\<close>: the text contains a match of some alternative.\<close>

definition MatchString :: "regex \<Rightarrow> string \<Rightarrow> bool" where
  "MatchString r s = list_ex (\<lambda>alt. search_from alt True s) r"

section \<open>UserMaskSet\<close>

text \<open>
  \<open>masks\<close> holds the keys of the Go map \<open>map[Name]bool\<close> (every stored value is
  \<open>true\<close>), without duplicates, in the order in which the \<open>range\<close> loop of
  \<open>setRegexp\<close> visits them. Go leaves that order open; the theorems on \<open>Match\<close>
  hold for every list of masks, so for every order. \<open>regexp\<close> is \<open>None\<close> for the
  nil pointer.
\<close>

record UserMaskSet =
  masks :: "Name list"
  regexp :: "regex option"

definition NewUserMaskSet :: UserMaskSet where
  "NewUserMaskSet = \<lparr>masks = [], regexp = None\<rparr>"

text \<open>
  The body of the \<open>range\<close> loop of \<open>setRegexp\<close> for one mask: split at \<open>*\<close>, split
  each part at \<open>?\<close>, quote the pieces, join with \<open>.\<close> and with \<open>.*\<close>.
\<close>

definition oneExprs :: "string \<Rightarrow> string list" where
  "oneExprs manyPart = map QuoteMeta (Split manyPart CHR ''?'')"

definition manyExprs :: "Name \<Rightarrow> string list" where
  "manyExprs umask = map (\<lambda>manyPart. Join (oneExprs manyPart) ''.'') (Split (String umask) CHR ''*'')"

definition mask_expr :: "Name \<Rightarrow> string" where
  "mask_expr umask = Join (manyExprs umask) ''.*''"

text \<open>
  The loop stores each mask's expression at \<open>maskExprs[index]\<close>. The source declares
  \<open>index := 0\<close> before the loop and never changes it, so the model passes it on
  unchanged. With \<open>index = 0\<close> and one slot per mask the write is always in range.
\<close>

fun setRegexp_loop :: "Name list \<Rightarrow> nat \<Rightarrow> string list \<Rightarrow> string list" where
  "setRegexp_loop [] index maskExprs = maskExprs"
| "setRegexp_loop (umask # rest) index maskExprs =
     setRegexp_loop rest index (maskExprs[index := mask_expr umask])"

definition setRegexp_expr :: "Name list \<Rightarrow> string" where
  "setRegexp_expr ms =
     (let maskExprs = setRegexp_loop ms 0 (replicate (length ms) [])
      in ''^'' @ Join maskExprs ''|'' @ ''$'')"

text \<open>The error of \<open>regexp.Compile\<close> is dropped: on an error the pointer stays nil.\<close>

definition setRegexp :: "UserMaskSet \<Rightarrow> UserMaskSet" where
  "setRegexp s =
     (if length (masks s) = 0 then s\<lparr>regexp := None\<rparr>
      else s\<lparr>regexp :=
             (case Compile (setRegexp_expr (masks s)) of
                Inl err \<Rightarrow> None
              | Inr r \<Rightarrow> Some r)\<rparr>)"

definition UserMaskSet_Add :: "Name \<Rightarrow> UserMaskSet \<Rightarrow> bool \<times> UserMaskSet" where
  "UserMaskSet_Add umask s =
     (if umask \<in> set (masks s) then (False, s)
      else (True, setRegexp (s\<lparr>masks := masks s @ [umask]\<rparr>)))"

fun UserMaskSet_AddAll_loop :: "Name list \<Rightarrow> bool \<Rightarrow> Name list \<Rightarrow> bool \<times> Name list" where
  "UserMaskSet_AddAll_loop [] added ms = (added, ms)"
| "UserMaskSet_AddAll_loop (umask # rest) added ms =
     UserMaskSet_AddAll_loop rest (added \<or> umask \<notin> set ms) (if umask \<in> set ms then ms else ms @ [umask])"

definition UserMaskSet_AddAll :: "Name list \<Rightarrow> UserMaskSet \<Rightarrow> bool \<times> UserMaskSet" where
  "UserMaskSet_AddAll new s =
     (case UserMaskSet_AddAll_loop new False (masks s) of
        (added, ms) \<Rightarrow> (added, setRegexp (s\<lparr>masks := ms\<rparr>)))"

definition UserMaskSet_Remove :: "Name \<Rightarrow> UserMaskSet \<Rightarrow> bool \<times> UserMaskSet" where
  "UserMaskSet_Remove umask s =
     (if umask \<notin> set (masks s) then (False, s)
      else (True, setRegexp (s\<lparr>masks := removeAll umask (masks s)\<rparr>)))"

definition Match :: "UserMaskSet \<Rightarrow> Name \<Rightarrow> bool" where
  "Match s userhost =
     (case regexp s of
        None \<Rightarrow> False
      | Some r \<Rightarrow> MatchString r (String userhost))"

text \<open>The states a mask set can reach: any sequence of its three mutators.\<close>

datatype mask_op = MaskAdd Name | MaskAddAll "Name list" | MaskRemove Name

fun mask_step :: "UserMaskSet \<Rightarrow> mask_op \<Rightarrow> UserMaskSet" where
  "mask_step s (MaskAdd m) = snd (UserMaskSet_Add m s)"
| "mask_step s (MaskAddAll ms) = snd (UserMaskSet_AddAll ms s)"
| "mask_step s (MaskRemove m) = snd (UserMaskSet_Remove m s)"

definition run_masks :: "mask_op list \<Rightarrow> UserMaskSet" where
  "run_masks ops = foldl mask_step NewUserMaskSet ops"

text \<open>
  A mask set is \<open>compiled\<close> when its matcher is the one \<open>setRegexp\<close> builds from
  its masks; every mutator ends in \<open>setRegexp\<close>.
\<close>

definition compiled :: "UserMaskSet \<Rightarrow> bool" where
  "compiled s = (regexp s = regexp (setRegexp s))"

section \<open>Errors\<close>

text \<open>
  The error values of the package, and those of the libraries it calls:
  \<open>CorruptInputError\<close> of encoding/base64 (without its offset), \<open>ErrorString\<close> for
  \<open>errors.New\<close> with a message, and the failures of the SQL driver.
\<close>

datatype error =
    ErrNickMissing
  | ErrNicknameInUse
  | ErrNicknameMismatch
  | EmptyPasswordError
  | InvalidPasswordError
  | CorruptInputError
  | ErrorString string
  | ErrConstraint
  | ErrExec
  | ErrQuery
  | ErrScan
  | ErrNoRows

section \<open>Userhost expansion and LIKE quoting\<close>

definition ExpandUserHost :: "Name \<Rightarrow> Name" where
  "ExpandUserHost userhost =
     (let expanded = userhost;
          expanded = (if \<not> Contains (String expanded) CHR ''!'' then expanded @ ''!*'' else expanded);
          expanded = (if \<not> Contains (String expanded) CHR ''@'' then expanded @ ''@*'' else expanded)
      in expanded)"

text \<open>
  \<open>strings.NewReplacer\<close> with pairs whose old strings are all one byte long: each byte
  of the input is looked up on its own, and the first pair given for a byte wins.
\<close>

type_synonym Replacer = "(char \<times> string) list"

fun Replace :: "Replacer \<Rightarrow> string \<Rightarrow> string" where
  "Replace r [] = []"
| "Replace r (c # cs) = (case map_of r c of None \<Rightarrow> [c] | Some new \<Rightarrow> new) @ Replace r cs"

definition likeQuoter :: Replacer where
  "likeQuoter =
     [(backslash, [backslash, backslash]),
      (CHR ''%'', [backslash, CHR ''%'']),
      (CHR ''_'', [backslash, CHR ''_'']),
      (CHR ''*'', ''%''),
      (CHR ''?'', ''_'')]"

definition QuoteLike :: "Name \<Rightarrow> string" where
  "QuoteLike userhost = Replace likeQuoter (String userhost)"

section \<open>Clients\<close>

text \<open>
  A \<open>*Client\<close> is modelled by its address \<open>client_id\<close> together with the fields read
  through it. A client is not changed while it is in a lookup set, so two pointers are
  equal exactly when the records are.

  Modelled from the spec: type \<open>Client\<close> and its methods \<open>HasNick\<close>, \<open>Nick\<close> and
  \<open>UserHost\<close> are not under src/. The spec gives a client a nick, a username and a
  hostname, names the error for an empty nick, and renders the userhost as
  \<open>nick!user@host\<close>.
\<close>

record Client =
  client_id :: nat
  nick :: Name
  username :: Name
  hostname :: Name

definition HasNick :: "Client \<Rightarrow> bool" where
  "HasNick client = (nick client \<noteq> [])"

definition Nick :: "Client \<Rightarrow> Name" where
  "Nick client = nick client"

definition UserHost :: "Client \<Rightarrow> Name" where
  "UserHost client = Nick client @ ''!'' @ username client @ ''@'' @ hostname client"

section \<open>The userhost index: table client\<close>

text \<open>
  The table \<open>client\<close> of \<open>NewClientDB\<close>, as the list of its rows
  \<open>(nickname, userhost)\<close>. Both columns are declared \<open>COLLATE NOCASE\<close>: SQLite
  compares them with the 26 ASCII letters folded.
\<close>

type_synonym row = "string \<times> string"

record ClientDB =
  rows :: "row list"

definition nocase_eq :: "string \<Rightarrow> string \<Rightarrow> bool" where
  "nocase_eq a b = (map ascii_lower a = map ascii_lower b)"

text \<open>
  What the driver may do to a statement handed to \<open>Exec\<close> besides running it: fail
  it (the database is locked, closed or cannot be written).
\<close>

datatype exec_fault = ExecOk | ExecFault

text \<open>
  \<open>INSERT INTO client (nickname, userhost) VALUES (?, ?)\<close> under the constraints of the
  schema: column \<open>nickname\<close> is \<open>UNIQUE\<close> (and has the unique index \<open>idx_nick\<close>),
  column \<open>userhost\<close> has the unique index \<open>idx_uh\<close>. A row that repeats a nickname
  or a userhost is refused and the table stays as it was. (The table constraint
  \<open>UNIQUE (nickname, userhost) ON CONFLICT REPLACE\<close> can only fire together with the
  other two; the theorems below that depend on an INSERT are about runs from a table
  without rows, where no nickname repeats, so they do not depend on which of them SQLite
  applies.)
\<close>

definition sql_insert :: "exec_fault \<Rightarrow> row list \<Rightarrow> row \<Rightarrow> error + row list" where
  "sql_insert f table r =
     (if f = ExecFault then Inl ErrExec
      else if list_ex (\<lambda>old. nocase_eq (fst old) (fst r) \<or> nocase_eq (snd old) (snd r)) table
      then Inl ErrConstraint
      else Inr (table @ [r]))"

text \<open>\<open>DELETE FROM client WHERE nickname = ?\<close>.\<close>

definition sql_delete :: "exec_fault \<Rightarrow> row list \<Rightarrow> string \<Rightarrow> error + row list" where
  "sql_delete f table nickname =
     (if f = ExecFault then Inl ErrExec
      else Inr (filter (\<lambda>old. \<not> nocase_eq (fst old) nickname) table))"

text \<open>
  SQLite's \<open>LIKE\<close> with \<open>ESCAPE '\'\<close>: \<open>%\<close> matches any run of characters, \<open>_\<close>
  any single character, the escape character makes the next character literal, and
  letters compare with ASCII case folded.
\<close>

fun like_match :: "string \<Rightarrow> string \<Rightarrow> bool" where
  "like_match [] s = (s = [])"
| "like_match (p # ps) s =
     (if p = CHR ''%'' then
        (like_match ps s \<or> (case s of [] \<Rightarrow> False | x # xs \<Rightarrow> like_match (p # ps) xs))
      else if p = CHR ''_'' then
        (case s of [] \<Rightarrow> False | x # xs \<Rightarrow> like_match ps xs)
      else if p = backslash then
        (case ps of
           [] \<Rightarrow> False
         | q # qs \<Rightarrow>
             (case s of [] \<Rightarrow> False | x # xs \<Rightarrow> ascii_lower q = ascii_lower x \<and> like_match qs xs))
      else
        (case s of [] \<Rightarrow> False | x # xs \<Rightarrow> ascii_lower p = ascii_lower x \<and> like_match ps xs))"

text \<open>\<open>SELECT nickname FROM client WHERE userhost LIKE ? ESCAPE '\'\<close>.\<close>

definition sql_select_like :: "row list \<Rightarrow> string \<Rightarrow> string list" where
  "sql_select_like table pattern = map fst (filter (\<lambda>r. like_match pattern (snd r)) table)"

text \<open>
  What the driver may do to a query besides answering it: fail the query, or fail the
  scan of the row with a given number (from 0).
\<close>

datatype fault = NoFault | QueryFault | ScanFault nat

text \<open>
  \<open>db.Query\<close> followed by the \<open>rows.Next\<close>/\<open>rows.Scan\<close> loop: an error, or the
  outcome of each scan up to the first one that fails.
\<close>

definition Query :: "fault \<Rightarrow> ClientDB \<Rightarrow> string \<Rightarrow> error + (error + string) list" where
  "Query f db pattern =
     (let result = sql_select_like (rows db) pattern
      in case f of
           QueryFault \<Rightarrow> Inl ErrQuery
         | NoFault \<Rightarrow> Inr (map Inr result)
         | ScanFault n \<Rightarrow>
             Inr (map Inr (take n result) @ (if n < length result then [Inl ErrScan] else [])))"

text \<open>
  \<open>db.QueryRow\<close> followed by \<open>row.Scan\<close>, for the statement with \<open>LIMIT 1\<close>: the
  first matching row in table order, \<open>ErrNoRows\<close> when there is none.
\<close>

definition QueryRow :: "fault \<Rightarrow> ClientDB \<Rightarrow> string \<Rightarrow> error + string" where
  "QueryRow f db pattern =
     (case f of
        QueryFault \<Rightarrow> Inl ErrQuery
      | _ \<Rightarrow>
          (case sql_select_like (rows db) pattern of
             [] \<Rightarrow> Inl ErrNoRows
           | nickname # _ \<Rightarrow> if f = ScanFault 0 then Inl ErrScan else Inr nickname))"

text \<open>
  \<open>ClientDB.Add\<close> and \<open>ClientDB.Remove\<close> log an error of \<open>Exec\<close> and go on: the
  table is then as it was before the statement.
\<close>

definition ClientDB_Add :: "exec_fault \<Rightarrow> ClientDB \<Rightarrow> Client \<Rightarrow> ClientDB" where
  "ClientDB_Add f db client =
     (case sql_insert f (rows db) (String (Nick client), String (UserHost client)) of
        Inl err \<Rightarrow> db
      | Inr table \<Rightarrow> db\<lparr>rows := table\<rparr>)"

definition ClientDB_Remove :: "exec_fault \<Rightarrow> ClientDB \<Rightarrow> Client \<Rightarrow> ClientDB" where
  "ClientDB_Remove f db client =
     (case sql_delete f (rows db) (String (Nick client)) of
        Inl err \<Rightarrow> db
      | Inr table \<Rightarrow> db\<lparr>rows := table\<rparr>)"

section \<open>ClientLookupSet\<close>

text \<open>
  \<open>byNick\<close> is the Go map \<open>map[Name]*Client\<close> as an association list with one entry
  per key; \<open>map_of\<close> reads it, \<open>AList.update\<close> writes it, \<open>AList.delete\<close> deletes.
\<close>

record ClientLookupSet =
  byNick :: "(Name \<times> Client) list"
  db :: ClientDB

text \<open>
  \<open>NewClientDB\<close> opens the database file at \<open>db_path\<close> and creates table
  \<open>client\<close> and its indexes. When the table is already there the statements fail
  with \<open>already exists\<close>, which the loop lets pass: the table keeps the rows
  \<open>found\<close> in the file, left by an earlier run. A new file has none. (Any other
  error ends the program with \<open>log.Fatal\<close>; no lookup set exists then.)
\<close>

definition NewClientDB :: "row list \<Rightarrow> ClientDB" where
  "NewClientDB found = \<lparr>rows = found\<rparr>"

definition NewClientLookupSet :: "row list \<Rightarrow> ClientLookupSet" where
  "NewClientLookupSet found = \<lparr>byNick = [], db = NewClientDB found\<rparr>"

definition Get :: "ClientLookupSet \<Rightarrow> Name \<Rightarrow> Client option" where
  "Get clients nick' = map_of (byNick clients) (ToLower nick')"

definition ClientLookupSet_Add ::
  "exec_fault \<Rightarrow> ClientLookupSet \<Rightarrow> Client \<Rightarrow> error option \<times> ClientLookupSet" where
  "ClientLookupSet_Add f clients client =
     (if \<not> HasNick client then (Some ErrNickMissing, clients)
      else if Get clients (nick client) \<noteq> None then (Some ErrNicknameInUse, clients)
      else (None, clients\<lparr>byNick := AList.update (ToLower (Nick client)) client (byNick clients),
                           db := ClientDB_Add f (db clients) client\<rparr>))"

definition ClientLookupSet_Remove ::
  "exec_fault \<Rightarrow> ClientLookupSet \<Rightarrow> Client \<Rightarrow> error option \<times> ClientLookupSet" where
  "ClientLookupSet_Remove f clients client =
     (if \<not> HasNick client then (Some ErrNickMissing, clients)
      else if Get clients (nick client) \<noteq> Some client then (Some ErrNicknameMismatch, clients)
      else (None, clients\<lparr>byNick := AList.delete (ToLower (nick client)) (byNick clients),
                           db := ClientDB_Remove f (db clients) client\<rparr>))"

text \<open>The loop over the rows of \<open>FindAll\<close>; \<open>found\<close> is the named result \<open>set\<close>.\<close>

fun FindAll_loop :: "ClientLookupSet \<Rightarrow> (error + string) list \<Rightarrow> Client set \<Rightarrow> Client set" where
  "FindAll_loop clients [] found = found"
| "FindAll_loop clients (scanned # rest) found =
     (case scanned of
        Inl err \<Rightarrow> found
      | Inr sqlNickname \<Rightarrow>
          (case Get clients sqlNickname of
             None \<Rightarrow> FindAll_loop clients rest found
           | Some client \<Rightarrow> FindAll_loop clients rest (insert client found)))"

definition FindAll :: "fault \<Rightarrow> ClientLookupSet \<Rightarrow> Name \<Rightarrow> Client set" where
  "FindAll f clients userhost =
     (let userhost = ExpandUserHost userhost;
          found = {}
      in case Query f (db clients) (QuoteLike userhost) of
           Inl err \<Rightarrow> found
         | Inr scans \<Rightarrow> FindAll_loop clients scans found)"

definition Find :: "fault \<Rightarrow> ClientLookupSet \<Rightarrow> Name \<Rightarrow> Client option" where
  "Find f clients userhost =
     (let userhost = ExpandUserHost userhost
      in case QueryRow f (db clients) (QuoteLike userhost) of
           Inl err \<Rightarrow> None
         | Inr nickname \<Rightarrow> Get clients nickname)"

text \<open>
  The states a lookup set can reach: from the rows found in the database file, any
  sequence of \<open>Add\<close> and \<open>Remove\<close>, each with what the driver does to its
  statement.
\<close>

datatype client_op = ClientAdd exec_fault Client | ClientRemove exec_fault Client

fun client_step :: "ClientLookupSet \<Rightarrow> client_op \<Rightarrow> ClientLookupSet" where
  "client_step s (ClientAdd f c) = snd (ClientLookupSet_Add f s c)"
| "client_step s (ClientRemove f c) = snd (ClientLookupSet_Remove f s c)"

definition run_clients :: "row list \<Rightarrow> client_op list \<Rightarrow> ClientLookupSet" where
  "run_clients found ops = foldl client_step (NewClientLookupSet found) ops"

text \<open>The folded nicknames of the clients in the set, one per entry of the map.\<close>

definition folded_nicks :: "ClientLookupSet \<Rightarrow> Name list" where
  "folded_nicks s = map (\<lambda>e. ToLower (nick (snd e))) (byNick s)"

text \<open>
  The two indexes agree: every client of the nickname map has its row in the table,
  and every row of the table names a client of the map whose row it is.
\<close>

definition coordinated :: "ClientLookupSet \<Rightarrow> bool" where
  "coordinated s =
     (list_all (\<lambda>e. (String (Nick (snd e)), String (UserHost (snd e))) \<in> set (rows (db s))) (byNick s) \<and>
      list_all (\<lambda>r. case Get s (fst r) of
                      None \<Rightarrow> False
                    | Some c \<Rightarrow> r = (String (Nick c), String (UserHost c))) (rows (db s)))"

text \<open>
  The entries are filed as \<open>Add\<close> files them: one entry per key, each under the folded
  nick of its client, which has a nick.
\<close>

definition filed :: "ClientLookupSet \<Rightarrow> bool" where
  "filed s =
     (distinct (map fst (byNick s)) \<and>
      list_all (\<lambda>e. fst e = ToLower (nick (snd e)) \<and> HasNick (snd e)) (byNick s))"

text \<open>
  No statement of the index fails along a run: the driver runs each INSERT and DELETE
  that \<open>Add\<close> and \<open>Remove\<close> issue, and each client that \<open>Add\<close> accepts has a
  userhost that no row of the table has, up to ASCII case.
\<close>

definition userhost_free :: "ClientLookupSet \<Rightarrow> Client \<Rightarrow> bool" where
  "userhost_free s c = (\<not> list_ex (\<lambda>old. nocase_eq (snd old) (String (UserHost c))) (rows (db s)))"

fun statements_succeed :: "ClientLookupSet \<Rightarrow> client_op list \<Rightarrow> bool" where
  "statements_succeed s [] = True"
| "statements_succeed s (ClientAdd f c # ops) =
     ((fst (ClientLookupSet_Add f s c) \<noteq> None \<or> (f = ExecOk \<and> userhost_free s c)) \<and>
      statements_succeed (snd (ClientLookupSet_Add f s c)) ops)"
| "statements_succeed s (ClientRemove f c # ops) =
     ((fst (ClientLookupSet_Remove f s c) \<noteq> None \<or> f = ExecOk) \<and>
      statements_succeed (snd (ClientLookupSet_Remove f s c)) ops)"

section \<open>Passwords\<close>

text \<open>
  \<open>base64.StdEncoding.DecodeString\<close>: line feeds and carriage returns are skipped,
  four symbols give three bytes, \<open>=\<close> pads the last group, and on corrupt input the
  bytes of the groups decoded so far come back with the error.
\<close>

definition encodeStd :: string where
  "encodeStd = ''ABCDEFGHIJKLMNOPQRSTUVWXYZabcdefghijklmnopqrstuvwxyz0123456789+/''"

fun index_of :: "char \<Rightarrow> string \<Rightarrow> nat \<Rightarrow> nat option" where
  "index_of c [] i = None"
| "index_of c (x # xs) i = (if c = x then Some i else index_of c xs (Suc i))"

definition decodeMap :: "char \<Rightarrow> nat option" where
  "decodeMap c = index_of c encodeStd 0"

definition is_newline :: "char \<Rightarrow> bool" where
  "is_newline c = (c = linefeed \<or> c = CHR 0x0D)"

text \<open>\<open>dbuf\<close> is a zero-initialised array of four symbols, filled from the left.\<close>

definition sextet :: "nat list \<Rightarrow> nat \<Rightarrow> nat" where
  "sextet dbuf j = (if j < length dbuf then dbuf ! j else 0)"

text \<open>A byte is a number below 256; the conversion \<open>byte(x)\<close> is \<open>x mod 256\<close>.\<close>

type_synonym byte = nat

definition quantum_bytes :: "nat list \<Rightarrow> byte list" where
  "quantum_bytes dbuf =
     (let val = sextet dbuf 0 * 262144 + sextet dbuf 1 * 4096 + sextet dbuf 2 * 64 + sextet dbuf 3
      in [val div 65536 mod 256, val div 256 mod 256, val mod 256])"

definition finish_quantum :: "nat list \<Rightarrow> string \<Rightarrow> byte list \<times> error option" where
  "finish_quantum dbuf rest =
     (take (length dbuf - 1) (quantum_bytes dbuf),
      if dropWhile is_newline rest \<noteq> [] then Some CorruptInputError else None)"

fun decode :: "nat list \<Rightarrow> string \<Rightarrow> byte list \<times> error option" where
  "decode dbuf [] = (if dbuf = [] then ([], None) else ([], Some CorruptInputError))"
| "decode dbuf (c # src) =
     (case decodeMap c of
        Some out \<Rightarrow>
          if length dbuf = 3 then
            (case decode [] src of (bs, err) \<Rightarrow> (quantum_bytes (dbuf @ [out]) @ bs, err))
          else decode (dbuf @ [out]) src
      | None \<Rightarrow>
          if is_newline c then decode dbuf src
          else if c \<noteq> CHR ''='' then ([], Some CorruptInputError)
          else if length dbuf < 2 then ([], Some CorruptInputError)
          else if length dbuf = 2 then
            (case dropWhile is_newline src of
               [] \<Rightarrow> ([], Some CorruptInputError)
             | d # rest \<Rightarrow>
                 if d \<noteq> CHR ''='' then ([], Some CorruptInputError)
                 else finish_quantum dbuf rest)
          else finish_quantum dbuf src)"

definition DecodeString :: "string \<Rightarrow> byte list \<times> error option" where
  "DecodeString s = decode [] s"

text \<open>The empty credential returns at once: a nil slice and a nil error.\<close>

definition DecodePassword :: "string \<Rightarrow> byte list \<times> error option" where
  "DecodePassword encoded =
     (if encoded = [] then ([], None)
      else (case DecodeString encoded of
              (decoded, err) \<Rightarrow>
                if length decoded < 60 then (decoded, Some InvalidPasswordError)
                else (decoded, err)))"

section \<open>Configuration\<close>

record PassConfig =
  Password :: string

record ServerConfig = PassConfig +
  Database :: string
  Listen :: "string list"
  Wslisten :: string
  Log :: string
  MOTD :: string
  Name :: string

record SSLListenConfig =
  SSLCert :: string
  SSLKey :: string

record Config =
  Server :: ServerConfig
  Operator :: "(string \<times> PassConfig) list"
  Theater :: "(string \<times> PassConfig) list"
  SSLListener :: "(string \<times> SSLListenConfig) list"

text \<open>
  \<open>gcfg.ReadFileInto\<close> reads and parses the file; it is a parameter of the model:
  the configuration it filled in and its error.
\<close>

definition LoadConfig :: "(string \<Rightarrow> Config \<times> error option) \<Rightarrow> string \<Rightarrow> Config \<times> error option" where
  "LoadConfig ReadFileInto filename =
     (case ReadFileInto filename of
        (config, err) \<Rightarrow>
          if err \<noteq> None then (config, err)
          else if Name (Server config) = [] then (config, Some (ErrorString ''server.name missing''))
          else if Database (Server config) = [] then (config, Some (ErrorString ''server.database missing''))
          else if length (Listen (Server config)) = 0 then (config, Some (ErrorString ''server.listen missing''))
          else (config, None))"

section \<open>The claims in the spec's words\<close>

text \<open>
  What the spec says a mask is: a glob in which \<open>*\<close> matches any run of characters
  and \<open>?\<close> any single character. \<open>wild\<close> says which characters a wildcard
  accepts, \<open>same\<close> when a character of the text equals a literal of the mask.
\<close>

fun glob_match :: "(char \<Rightarrow> bool) \<Rightarrow> (char \<Rightarrow> char \<Rightarrow> bool) \<Rightarrow> string \<Rightarrow> string \<Rightarrow> bool" where
  "glob_match wild same [] s = (s = [])"
| "glob_match wild same (p # ps) [] = (p = CHR ''*'' \<and> glob_match wild same ps [])"
| "glob_match wild same (p # ps) (x # xs) =
     (if p = CHR ''*'' then
        glob_match wild same ps (x # xs) \<or> (wild x \<and> glob_match wild same (p # ps) xs)
      else if p = CHR ''?'' then wild x \<and> glob_match wild same ps xs
      else same p x \<and> glob_match wild same ps xs)"

definition any_char :: "char \<Rightarrow> bool" where
  "any_char x = True"

definition not_linefeed :: "char \<Rightarrow> bool" where
  "not_linefeed x = (x \<noteq> linefeed)"

definition same_char :: "char \<Rightarrow> char \<Rightarrow> bool" where
  "same_char p x = (p = x)"

definition nocase_char :: "char \<Rightarrow> char \<Rightarrow> bool" where
  "nocase_char p x = (ascii_lower p = ascii_lower x)"

text \<open>
  The claim on \<open>Match\<close> as the spec words it: some mask of the set matches the
  userhost as a glob, both case-folded.
\<close>

definition spec_Match :: "UserMaskSet \<Rightarrow> Name \<Rightarrow> bool" where
  "spec_Match s userhost =
     list_ex (\<lambda>m. glob_match any_char same_char (ToLower m) (ToLower userhost)) (masks s)"

text \<open>
  The combined expression as the spec words it: every mask's expression anchored by
  itself, the anchored expressions joined by \<open>|\<close>.
\<close>

definition spec_expr :: "Name list \<Rightarrow> string" where
  "spec_expr ms = Join (map (\<lambda>m. ''^'' @ mask_expr m @ ''$'') ms) ''|''"

text \<open>The expression of one mask, character by character.\<close>

definition tr_one :: "char \<Rightarrow> string" where
  "tr_one c = (if c = CHR ''?'' then ''.'' else quote_char c)"

definition tr_mask :: "char \<Rightarrow> string" where
  "tr_mask c = (if c = CHR ''*'' then ''.*'' else tr_one c)"

definition item_of :: "char \<Rightarrow> item" where
  "item_of c = (if c = CHR ''*'' then Star Dot else if c = CHR ''?'' then Ch Dot else Ch (One c))"

definition no_star :: "string \<Rightarrow> bool" where
  "no_star s = (case s of [] \<Rightarrow> True | d # _ \<Rightarrow> d \<noteq> CHR ''*'')"

fun add_items :: "item list \<Rightarrow> regex option \<Rightarrow> regex option" where
  "add_items [] r = r"
| "add_items (it # its) r = add_item it (add_items its r)"

section \<open>Example data\<close>

definition alice :: Client where
  "alice = \<lparr>client_id = 1, nick = ''Alice'', username = ''al'', hostname = ''example.org''\<rparr>"

definition bob :: Client where
  "bob = \<lparr>client_id = 2, nick = ''bob'', username = ''rob'', hostname = ''example.net''\<rparr>"

text \<open>A second connection that asks for alice's nick in capitals.\<close>

definition alice_upper :: Client where
  "alice_upper = \<lparr>client_id = 5, nick = ''ALICE'', username = ''eve'', hostname = ''example.com''\<rparr>"

text \<open>Two clients with different nicks whose userhosts are the same string.\<close>

definition ab :: Client where
  "ab = \<lparr>client_id = 3, nick = ''a'', username = ''b!c'', hostname = ''h''\<rparr>"

definition abc :: Client where
  "abc = \<lparr>client_id = 4, nick = ''a!b'', username = ''c'', hostname = ''h''\<rparr>"

text \<open>A lookup set whose table has a row for carol that the nickname map lacks.\<close>

definition stale_set :: ClientLookupSet where
  "stale_set =
     \<lparr>byNick = [(''bob'', bob)],
      db = \<lparr>rows = [(''carol'', ''carol!c@example.com''), (''bob'', ''bob!rob@example.net'')]\<rparr>\<rparr>"

text \<open>The base64 form of a hash of 60 bytes.\<close>

definition encoded_hash :: string where
  "encoded_hash =
     ''JDJhJDA0JGFiY2RlZmdoaWprbG1ub3BxcnN0dXZBQkNERUZHSElKS0xNTk9QUVJTVFVWV1hZWmFiY2Rl''"

definition example_config :: Config where
  "example_config =
     \<lparr>Server = \<lparr>Password = [], Database = ''ircd.db'', Listen = ['':6667''], Wslisten = [],
                 Log = [], MOTD = [], Name = ''irc.example.org''\<rparr>,
      Operator = [], Theater = [], SSLListener = []\<rparr>"

section \<open>Split, Join and QuoteMeta\<close>

lemma Split_nonempty: "Split s c \<noteq> []"
  by (induction s) (auto split: list.splits)

lemma Join_map_Split:
  "Join (map (\<lambda>q. concat (map f q)) (Split p c)) sep =
   concat (map (\<lambda>x. if x = c then sep else f x) p)"
proof (induction p)
  case Nil
  then show ?case by simp
next
  case (Cons x xs)
  obtain q qs where sp: "Split xs c = q # qs"
    using Split_nonempty [of xs c] by (cases "Split xs c") auto
  show ?case
  proof (cases "x = c")
    case True
    then show ?thesis using Cons sp by simp
  next
    case False
    then show ?thesis using Cons sp by (cases qs) auto
  qed
qed

lemma QuoteMeta_concat: "QuoteMeta s = concat (map quote_char s)"
  by (induction s) auto

lemma oneExprs_Join: "Join (oneExprs p) ''.'' = concat (map tr_one p)"
  unfolding oneExprs_def tr_one_def QuoteMeta_concat [abs_def]
  using Join_map_Split [of quote_char p "CHR ''?''" "''.''"] by simp

lemma mask_expr_concat: "mask_expr m = concat (map tr_mask m)"
proof -
  have "mask_expr m = Join (map (\<lambda>q. concat (map tr_one q)) (Split m CHR ''*'')) ''.*''"
    by (simp add: mask_expr_def manyExprs_def oneExprs_Join String_def)
  also have "\<dots> = concat (map (\<lambda>x. if x = CHR ''*'' then ''.*'' else tr_one x) m)"
    by (rule Join_map_Split)
  finally show ?thesis by (simp add: tr_mask_def [abs_def])
qed

section \<open>Parsing the generated expression\<close>

lemma parse_tr_mask:
  assumes "no_star rest"
  shows "parse (tr_mask c @ rest) = add_item (item_of c) (parse rest)"
  using assms
  by (cases rest)
     (auto simp: tr_mask_def tr_one_def quote_char_def item_of_def no_star_def
           specialBytes_def backslash_def)

lemma no_star_tr_mask: "no_star (tr_mask c @ rest)"
  by (auto simp: tr_mask_def tr_one_def quote_char_def no_star_def backslash_def)

lemma parse_mask_expr:
  "no_star rest \<Longrightarrow>
   parse (concat (map tr_mask m) @ rest) = add_items (map item_of m) (parse rest)"
proof (induction m)
  case Nil
  then show ?case by simp
next
  case (Cons c cs)
  have ns: "no_star (concat (map tr_mask cs) @ rest)"
    using Cons.prems by (cases cs) (simp_all add: no_star_tr_mask)
  show ?case
    using parse_tr_mask [OF ns, of c] Cons by simp
qed

lemma add_items_Some: "add_items its (Some (a # alts)) = Some ((its @ a) # alts)"
  by (induction its) (auto simp: add_item_def)

lemma parse_bars: "parse (replicate k CHR ''|'' @ ''$'') = Some (replicate k [] @ [[Eol]])"
  by (induction k) (auto simp: add_item_def add_alt_def)

text \<open>
  Every pass of the loop writes slot 0: after the loop the first slot holds the
  expression of the mask visited last, and every other slot is still empty.
\<close>

lemma setRegexp_loop_last:
  "setRegexp_loop ms 0 (e # es) = (if ms = [] then e # es else mask_expr (last ms) # es)"
  by (induction ms arbitrary: e) auto

lemma Join_empties: "Join (e # replicate k []) ''|'' = e @ replicate k CHR ''|''"
proof (induction k arbitrary: e)
  case 0
  then show ?case by simp
next
  case (Suc k)
  have "Join (e # replicate (Suc k) []) ''|'' = e @ ''|'' @ Join ([] # replicate k []) ''|''"
    by simp
  then show ?case using Suc [of "[]"] by (simp add: replicate_append_same)
qed

lemma setRegexp_expr_eq:
  "ms \<noteq> [] \<Longrightarrow>
   setRegexp_expr ms = ''^'' @ mask_expr (last ms) @ replicate (length ms - 1) CHR ''|'' @ ''$''"
proof -
  assume ne: "ms \<noteq> []"
  then obtain k where k: "length ms = Suc k" by (cases ms) auto
  show ?thesis
    using ne k by (simp add: setRegexp_expr_def setRegexp_loop_last Join_empties)
qed

text \<open>The expression of a non-empty mask list always compiles, and to this.\<close>

lemma parse_setRegexp_expr:
  assumes "ms \<noteq> []"
  shows "parse (setRegexp_expr ms) =
         Some (((Bol # map item_of (last ms)) @ (if length ms = 1 then [Eol] else []))
               # (if length ms = 1 then [] else replicate (length ms - 2) [] @ [[Eol]]))"
proof -
  let ?k = "length ms - 1"
  let ?rest = "replicate ?k CHR ''|'' @ ''$''"
  have ns: "no_star ?rest" by (cases ?k) (simp_all add: no_star_def)
  have "parse (setRegexp_expr ms) = add_item Bol (parse (concat (map tr_mask (last ms)) @ ?rest))"
    using assms by (simp add: setRegexp_expr_eq mask_expr_concat)
  also have "\<dots> = add_item Bol (add_items (map item_of (last ms)) (Some (replicate ?k [] @ [[Eol]])))"
    by (simp only: parse_mask_expr [OF ns] parse_bars)
  finally have p: "parse (setRegexp_expr ms) =
      add_item Bol (add_items (map item_of (last ms)) (Some (replicate ?k [] @ [[Eol]])))" .
  show ?thesis
  proof (cases "length ms = 1")
    case True
    then show ?thesis using p by (simp add: add_items_Some add_item_def)
  next
    case False
    then obtain j where j: "length ms = Suc (Suc j)"
      using assms by (cases ms; cases "tl ms") auto
    then show ?thesis using p by (simp add: add_items_Some add_item_def)
  qed
qed

section \<open>Matching\<close>

lemma match_items_glob:
  "match_items (map item_of m @ [Eol]) b s = glob_match not_linefeed same_char m s"
proof (induction not_linefeed same_char m s arbitrary: b rule: glob_match.induct)
  case (1 s)
  then show ?case by simp
next
  case (2 p ps)
  then show ?case by (simp add: item_of_def)
next
  case (3 p ps x xs)
  then show ?case by (auto simp: item_of_def not_linefeed_def same_char_def)
qed

lemma search_from_Bol_False: "\<not> search_from (Bol # its) False s"
  by (induction s) auto

lemma search_from_Bol: "search_from (Bol # its) True s = match_items its True s"
  by (cases s) (auto simp: search_from_Bol_False)

lemma search_from_Eol: "search_from [Eol] b s"
  by (induction s arbitrary: b) auto

lemma compiled_single:
  "Match (setRegexp \<lparr>masks = [m], regexp = r\<rparr>) uh = glob_match not_linefeed same_char m uh"
  using parse_setRegexp_expr [of "[m]"]
  by (simp add: Match_def setRegexp_def Compile_def MatchString_def String_def
        search_from_Bol match_items_glob)

text \<open>
  With two masks or more the compiled expression ends in the alternative \<open>$\<close>, which
  matches at the end of every text.
\<close>

lemma Match_many_masks:
  assumes "2 \<le> length (masks s)"
  shows "Match (setRegexp s) uh"
proof -
  have ne: "masks s \<noteq> []" and n1: "length (masks s) \<noteq> 1" and n0: "length (masks s) \<noteq> 0"
    using assms by auto
  show ?thesis
    using parse_setRegexp_expr [OF ne] n1 n0
    by (simp add: Match_def setRegexp_def Compile_def MatchString_def search_from_Eol)
qed

section \<open>Reachable mask sets\<close>

lemma masks_setRegexp: "masks (setRegexp s) = masks s"
  by (simp add: setRegexp_def)

lemma regexp_setRegexp_cong: "masks s = masks t \<Longrightarrow> regexp (setRegexp s) = regexp (setRegexp t)"
  by (simp add: setRegexp_def)

lemma compiled_setRegexp: "compiled (setRegexp s)"
  unfolding compiled_def by (rule regexp_setRegexp_cong) (simp add: masks_setRegexp)

lemma compiled_step: "compiled s \<Longrightarrow> compiled (mask_step s op)"
  by (cases op)
     (auto simp: UserMaskSet_Add_def UserMaskSet_AddAll_def UserMaskSet_Remove_def
           compiled_setRegexp split: prod.splits)

lemma compiled_run: "compiled (run_masks ops)"
proof (induction ops rule: rev_induct)
  case Nil
  then show ?case by (simp add: run_masks_def compiled_def NewUserMaskSet_def setRegexp_def)
next
  case (snoc op ops)
  then show ?case by (simp add: run_masks_def compiled_step)
qed

lemma Match_compiled: "compiled s \<Longrightarrow> Match s uh = Match (setRegexp s) uh"
  by (simp add: Match_def compiled_def)

lemma run_one_mask: "masks (run_masks [MaskAdd m]) = [m]"
  by (simp add: run_masks_def NewUserMaskSet_def UserMaskSet_Add_def masks_setRegexp)

text \<open>
  C10. A mask set that holds no mask matches no userhost: its matcher is nil, in the
  new set and after the last mask has been removed.
\<close>

theorem Match_empty_mask_set:
  "masks (run_masks ops) = [] \<Longrightarrow>
   regexp (run_masks ops) = None \<and> \<not> Match (run_masks ops) userhost"
  using compiled_run [of ops] by (simp add: compiled_def Match_def setRegexp_def)

theorem Match_empty_mask_set_witness:
  "masks (run_masks [MaskAdd ''a!*@*'', MaskRemove ''a!*@*'']) = [] \<and>
   regexp (run_masks [MaskAdd ''a!*@*'', MaskRemove ''a!*@*'']) = None \<and>
   \<not> Match (run_masks [MaskAdd ''a!*@*'', MaskRemove ''a!*@*'']) ''a!b@c''"
proof -
  have h: "masks (run_masks [MaskAdd ''a!*@*'', MaskRemove ''a!*@*'']) = []"
    by (simp add: run_masks_def NewUserMaskSet_def UserMaskSet_Add_def UserMaskSet_Remove_def
          masks_setRegexp)
  show ?thesis using h Match_empty_mask_set [OF h, of "''a!b@c''"] by simp
qed

text \<open>
  C1, as the code has it. For a mask set that holds at most one mask, \<open>Match\<close> is true
  exactly when that mask matches the userhost as a glob in which \<open>*\<close> is any run of
  characters other than line feed and \<open>?\<close> any one character other than line feed.
  Mask and userhost are compared as they are written: nothing folds their case.
\<close>

theorem Match_at_most_one_mask:
  "length (masks (run_masks ops)) \<le> 1 \<Longrightarrow>
   Match (run_masks ops) userhost =
     list_ex (\<lambda>m. glob_match not_linefeed same_char m userhost) (masks (run_masks ops))"
proof -
  assume le: "length (masks (run_masks ops)) \<le> 1"
  let ?s = "run_masks ops"
  have m: "Match ?s userhost = Match (setRegexp ?s) userhost"
    by (rule Match_compiled [OF compiled_run])
  show ?thesis
  proof (cases "masks ?s")
    case Nil
    then show ?thesis using m by (simp add: Match_def setRegexp_def)
  next
    case (Cons a as)
    then have one: "masks ?s = [a]" using le by simp
    have "regexp (setRegexp ?s) = regexp (setRegexp \<lparr>masks = [a], regexp = None\<rparr>)"
      by (rule regexp_setRegexp_cong) (simp add: one)
    then have "Match (setRegexp ?s) userhost = glob_match not_linefeed same_char a userhost"
      using compiled_single [of a None userhost] by (simp add: Match_def)
    then show ?thesis using m one by simp
  qed
qed

theorem Match_at_most_one_mask_witness:
  "length (masks (run_masks [MaskAdd ''*!*@evil.*''])) \<le> 1 \<and>
   Match (run_masks [MaskAdd ''*!*@evil.*'']) ''bob!x@evil.host'' \<and>
   \<not> Match (run_masks [MaskAdd ''*!*@evil.*'']) ''bob!x@good.host''"
proof -
  have h: "length (masks (run_masks [MaskAdd ''*!*@evil.*''])) \<le> 1"
    by (simp add: run_one_mask)
  have g1: "glob_match not_linefeed same_char ''*!*@evil.*'' ''bob!x@evil.host''"
    by code_simp
  have g2: "\<not> glob_match not_linefeed same_char ''*!*@evil.*'' ''bob!x@good.host''"
    by code_simp
  have m: "Match (run_masks [MaskAdd ''*!*@evil.*'']) uh =
           glob_match not_linefeed same_char ''*!*@evil.*'' uh" for uh
    using Match_at_most_one_mask [OF h, of uh]
    by (simp only: run_one_mask list_ex_Nil_iff list_ex_Cons_iff simp_thms)
  show ?thesis
    using h g1 g2 by (simp only: m simp_thms)
qed

text \<open>
  C1 as the spec states it fails twice on a single mask: \<open>ABC\<close> does not match
  \<open>abc\<close>, and \<open>a?c\<close> does not match \<open>a\<close>, line feed, \<open>c\<close>.
\<close>

theorem Match_case_sensitive_counterexample:
  "spec_Match (run_masks [MaskAdd ''ABC'']) ''abc'' \<and>
   \<not> Match (run_masks [MaskAdd ''ABC'']) ''abc'' \<and>
   spec_Match (run_masks [MaskAdd ''a?c'']) [CHR ''a'', linefeed, CHR ''c''] \<and>
   \<not> Match (run_masks [MaskAdd ''a?c'']) [CHR ''a'', linefeed, CHR ''c'']"
  by code_simp

section \<open>The combined expression\<close>

text \<open>For a single mask the expression of the code is the one the spec describes.\<close>

lemma setRegexp_expr_single: "setRegexp_expr [m] = spec_expr [m]"
  by (simp add: setRegexp_expr_def spec_expr_def)

text \<open>
  C2, the code at two masks. The claim asks for \<open>^a!.*@.*$|^b!.*@.*$\<close>. The code
  keeps the expression of the mask the loop visits last and leaves the other slot
  empty: \<open>^b!.*@.*|$\<close> when it visits \<open>a\<close> first, \<open>^a!.*@.*|$\<close> when it visits
  \<open>b\<close> first. Either way the matcher accepts a userhost that neither mask matches.
\<close>

theorem setRegexp_index_never_advances:
  "setRegexp_expr [''a!*@*'', ''b!*@*''] = ''^b!.*@.*|$'' \<and>
   setRegexp_expr [''b!*@*'', ''a!*@*''] = ''^a!.*@.*|$'' \<and>
   spec_expr [''a!*@*'', ''b!*@*''] = ''^a!.*@.*$|^b!.*@.*$'' \<and>
   Match (run_masks [MaskAdd ''a!*@*'', MaskAdd ''b!*@*'']) ''c!x@y'' \<and>
   Match (run_masks [MaskAdd ''b!*@*'', MaskAdd ''a!*@*'']) ''c!x@y'' \<and>
   map_sum id (\<lambda>r. MatchString r ''c!x@y'') (Compile (spec_expr [''a!*@*'', ''b!*@*''])) = Inr False"
  by code_simp

section \<open>Userhost expansion\<close>

lemma ExpandUserHost_eq:
  "ExpandUserHost uh =
     uh @ (if Contains uh CHR ''!'' then [] else ''!*'') @ (if Contains uh CHR ''@'' then [] else ''@*'')"
  by (simp add: ExpandUserHost_def Contains_def String_def Let_def)

lemma ExpandUserHost_idem: "ExpandUserHost (ExpandUserHost uh) = ExpandUserHost uh"
  by (simp add: ExpandUserHost_eq Contains_def)

text \<open>
  C3. \<open>ExpandUserHost\<close> appends \<open>!*\<close> to a userhost without \<open>!\<close> and \<open>@*\<close> to one
  without \<open>@\<close>. \<open>FindAll\<close> and \<open>Find\<close> hand the index the expansion of their
  argument, so an argument and its expansion give the same result.
\<close>

theorem ExpandUserHost_appends:
  "ExpandUserHost uh =
     uh @ (if Contains uh CHR ''!'' then [] else ''!*'') @ (if Contains uh CHR ''@'' then [] else ''@*'') \<and>
   FindAll f clients uh =
     (case Query f (db clients) (QuoteLike (ExpandUserHost uh)) of
        Inl err \<Rightarrow> {}
      | Inr scans \<Rightarrow> FindAll_loop clients scans {}) \<and>
   Find f clients uh =
     (case QueryRow f (db clients) (QuoteLike (ExpandUserHost uh)) of
        Inl err \<Rightarrow> None
      | Inr nickname \<Rightarrow> Get clients nickname) \<and>
   FindAll f clients uh = FindAll f clients (ExpandUserHost uh) \<and>
   Find f clients uh = Find f clients (ExpandUserHost uh)"
  by (simp add: ExpandUserHost_eq [symmetric] FindAll_def Find_def ExpandUserHost_idem)

theorem ExpandUserHost_appends_witness:
  "ExpandUserHost ''nick'' = ''nick!*@*'' \<and>
   FindAll NoFault stale_set ''nick'' = FindAll NoFault stale_set ''nick!*@*'' \<and>
   Find NoFault stale_set ''nick'' = Find NoFault stale_set ''nick!*@*''"
proof -
  note t = ExpandUserHost_appends [where uh = "''nick''" and f = NoFault and clients = stale_set]
  have e: "ExpandUserHost ''nick'' = ''nick!*@*''"
    using t [THEN conjunct1] by (simp add: Contains_def)
  have fa: "FindAll NoFault stale_set ''nick'' = FindAll NoFault stale_set (ExpandUserHost ''nick'')"
    using t by blast
  have fi: "Find NoFault stale_set ''nick'' = Find NoFault stale_set (ExpandUserHost ''nick'')"
    using t by blast
  show ?thesis using fa fi unfolding e by (simp only: e simp_thms)
qed

section \<open>LIKE quoting\<close>

lemma like_match_QuoteLike: "like_match (QuoteLike m) s = glob_match any_char nocase_char m s"
  unfolding QuoteLike_def String_def
  by (induction any_char nocase_char m s rule: glob_match.induct)
     (auto simp: likeQuoter_def backslash_def any_char_def nocase_char_def)

text \<open>
  C4. \<open>QuoteLike\<close> turns \<open>*\<close> into \<open>%\<close> and \<open>?\<close> into \<open>_\<close>, puts a backslash
  before each backslash, \<open>%\<close> and \<open>_\<close>, and copies every other character. The
  LIKE pattern it gives matches what the userhost matches as a glob, letters compared
  without ASCII case.
\<close>

theorem QuoteLike_transliterates:
  "QuoteLike userhost =
     concat (map (\<lambda>c. if c = CHR ''*'' then ''%''
                       else if c = CHR ''?'' then ''_''
                       else if c = backslash \<or> c = CHR ''%'' \<or> c = CHR ''_'' then [backslash, c]
                       else [c]) userhost) \<and>
   like_match (QuoteLike userhost) s = glob_match any_char nocase_char userhost s"
proof -
  have "QuoteLike userhost =
     concat (map (\<lambda>c. if c = CHR ''*'' then ''%''
                       else if c = CHR ''?'' then ''_''
                       else if c = backslash \<or> c = CHR ''%'' \<or> c = CHR ''_'' then [backslash, c]
                       else [c]) userhost)"
    unfolding QuoteLike_def String_def
    by (induction userhost) (auto simp: likeQuoter_def backslash_def)
  moreover have "like_match (QuoteLike userhost) s = glob_match any_char nocase_char userhost s"
    by (rule like_match_QuoteLike)
  ultimately show ?thesis by (rule conjI)
qed

theorem QuoteLike_transliterates_witness:
  "QuoteLike ''a*b?c%d_e'' =
     [CHR ''a'', CHR ''%'', CHR ''b'', CHR ''_'', CHR ''c'', backslash, CHR ''%'', CHR ''d'',
      backslash, CHR ''_'', CHR ''e''] \<and>
   like_match (QuoteLike ''a*b?c%d_e'') ''AxyzBqC%D_E''"
proof -
  note t = QuoteLike_transliterates [of "''a*b?c%d_e''" "''AxyzBqC%D_E''"]
  have g: "glob_match any_char nocase_char ''a*b?c%d_e'' ''AxyzBqC%D_E''"
    by code_simp
  have q: "QuoteLike ''a*b?c%d_e'' =
     [CHR ''a'', CHR ''%'', CHR ''b'', CHR ''_'', CHR ''c'', backslash, CHR ''%'', CHR ''d'',
      backslash, CHR ''_'', CHR ''e'']"
    using t [THEN conjunct1] by (simp add: backslash_def)
  have l: "like_match (QuoteLike ''a*b?c%d_e'') ''AxyzBqC%D_E''"
    using t [THEN conjunct2] g by blast
  show ?thesis using q l by (rule conjI)
qed

text \<open>What \<open>FindAll\<close> returns when the index answers: a glob match on the userhosts.\<close>

lemma sql_select_like_glob:
  "sql_select_like table (QuoteLike m) =
   map fst (filter (\<lambda>r. glob_match any_char nocase_char m (snd r)) table)"
  by (simp add: sql_select_like_def like_match_QuoteLike)

section \<open>Passwords\<close>

text \<open>
  C5, as the code has it. A credential that is not the empty string is rejected with
  \<open>InvalidPasswordError\<close> when its base64 decoding is shorter than 60 bytes, and is
  accepted only when the decoding has 60 bytes or more. The empty string is accepted
  as it is: no hash and no error.
\<close>

theorem DecodePassword_short_hash:
  "DecodePassword [] = ([], None) \<and>
   (encoded \<noteq> [] \<longrightarrow> fst (DecodePassword encoded) = fst (DecodeString encoded)) \<and>
   (encoded \<noteq> [] \<longrightarrow> length (fst (DecodeString encoded)) < 60 \<longrightarrow>
      snd (DecodePassword encoded) = Some InvalidPasswordError) \<and>
   (encoded \<noteq> [] \<longrightarrow> snd (DecodePassword encoded) = None \<longrightarrow>
      60 \<le> length (fst (DecodeString encoded)))"
  by (auto simp: DecodePassword_def split: prod.splits if_splits)

lemmas decode_eval =
  DecodeString_def decodeMap_def encodeStd_def is_newline_def linefeed_def
  quantum_bytes_def sextet_def finish_quantum_def

theorem DecodePassword_short_hash_witness:
  "''QUJD'' \<noteq> [] \<and> length (fst (DecodeString ''QUJD'')) < 60 \<and>
   snd (DecodePassword ''QUJD'') = Some InvalidPasswordError \<and>
   encoded_hash \<noteq> [] \<and> snd (DecodePassword encoded_hash) = None \<and>
   60 \<le> length (fst (DecodeString encoded_hash))"
proof -
  have a: "''QUJD'' \<noteq> []" by simp
  have b: "length (fst (DecodeString ''QUJD'')) < 60" by (simp add: decode_eval)
  have c: "encoded_hash \<noteq> []" by (simp add: encoded_hash_def)
  have d: "snd (DecodePassword encoded_hash) = None"
    by (simp add: DecodePassword_def encoded_hash_def decode_eval)
  have r1: "snd (DecodePassword ''QUJD'') = Some InvalidPasswordError"
    using DecodePassword_short_hash [of "''QUJD''"] a b by blast
  have r2: "60 \<le> length (fst (DecodeString encoded_hash))"
    using DecodePassword_short_hash [of encoded_hash] c d by blast
  show ?thesis using a b c d r1 r2 by blast
qed

text \<open>C5 as the spec states it fails at the empty credential.\<close>

theorem DecodePassword_empty_counterexample:
  "length (fst (DecodePassword [])) < 60 \<and> snd (DecodePassword []) = None"
  by (simp add: DecodePassword_def)

section \<open>Configuration\<close>

text \<open>
  C9. When the file parses, \<open>LoadConfig\<close> returns an error if the server name, the
  database or the listen list is empty, and the configuration with no error if all
  three are there.
\<close>

theorem LoadConfig_required:
  "ReadFileInto filename = (config, None) \<Longrightarrow>
   ((Name (Server config) = [] \<or> Database (Server config) = [] \<or> Listen (Server config) = []) \<longrightarrow>
      snd (LoadConfig ReadFileInto filename) \<noteq> None) \<and>
   (Name (Server config) \<noteq> [] \<and> Database (Server config) \<noteq> [] \<and> Listen (Server config) \<noteq> [] \<longrightarrow>
      LoadConfig ReadFileInto filename = (config, None))"
  by (auto simp: LoadConfig_def)

theorem LoadConfig_required_witness:
  "LoadConfig (\<lambda>f. (example_config, None)) ''ircd.conf'' = (example_config, None) \<and>
   snd (LoadConfig (\<lambda>f. (example_config\<lparr>Server := (Server example_config)\<lparr>Listen := []\<rparr>\<rparr>, None))
          ''ircd.conf'') \<noteq> None"
proof -
  let ?bad = "example_config\<lparr>Server := (Server example_config)\<lparr>Listen := []\<rparr>\<rparr>"
  have ok: "Name (Server example_config) \<noteq> [] \<and> Database (Server example_config) \<noteq> [] \<and>
            Listen (Server example_config) \<noteq> []"
    by (simp add: example_config_def)
  have bad: "Name (Server ?bad) = [] \<or> Database (Server ?bad) = [] \<or> Listen (Server ?bad) = []"
    by simp
  have r1: "LoadConfig (\<lambda>f. (example_config, None)) ''ircd.conf'' = (example_config, None)"
    using LoadConfig_required [of "\<lambda>f. (example_config, None)" "''ircd.conf''" example_config] ok
    by blast
  have r2: "snd (LoadConfig (\<lambda>f. (?bad, None)) ''ircd.conf'') \<noteq> None"
    using LoadConfig_required [of "\<lambda>f. (?bad, None)" "''ircd.conf''" ?bad] bad
    by blast
  show ?thesis using r1 r2 by (rule conjI)
qed

section \<open>The lookup set\<close>

lemma ToLower_Nil: "(ToLower s = []) = (s = [])"
  by (simp add: ToLower_def)

lemma nocase_ToLower: "nocase_eq a b \<Longrightarrow> ToLower a = ToLower b"
proof -
  assume "nocase_eq a b"
  then have eq: "map ascii_lower a = map ascii_lower b" by (simp add: nocase_eq_def)
  define g where "g = (\<lambda>l. if l = CHR ''{'' then CHR ''[''
      else if l = CHR ''|'' then backslash
      else if l = CHR ''}'' then CHR '']''
      else if l = CHR ''^'' then CHR ''~''
      else l)"
  have "fold_char = g \<circ> ascii_lower"
    by (rule ext) (simp add: fold_char_def g_def Let_def)
  then have "ToLower a = map g (map ascii_lower a)" and "ToLower b = map g (map ascii_lower b)"
    by (simp_all add: ToLower_def)
  then show ?thesis using eq by simp
qed

lemma nocase_refl: "nocase_eq a a"
  by (simp add: nocase_eq_def)

lemma update_fresh: "k \<notin> fst ` set al \<Longrightarrow> AList.update k v al = al @ [(k, v)]"
  by (induction al) auto

lemma map_of_None_fresh: "map_of al k = None \<Longrightarrow> k \<notin> fst ` set al"
  by (simp add: map_of_eq_None_iff)

lemma delete_filter: "AList.delete k al = filter (\<lambda>e. fst e \<noteq> k) al"
  by (induction al) (auto simp: AList.delete_eq)

lemma filed_iff:
  "filed s = (distinct (map fst (byNick s)) \<and>
              (\<forall>e\<in>set (byNick s). fst e = ToLower (nick (snd e)) \<and> nick (snd e) \<noteq> []))"
  by (simp add: filed_def list_all_iff HasNick_def)

lemma coordinated_iff:
  "coordinated s =
     ((\<forall>e\<in>set (byNick s). (nick (snd e), UserHost (snd e)) \<in> set (rows (db s))) \<and>
      (\<forall>r\<in>set (rows (db s)). \<exists>c. map_of (byNick s) (ToLower (fst r)) = Some c \<and>
                                   r = (nick c, UserHost c)))"
  by (auto simp: coordinated_def list_all_iff Get_def String_def Nick_def split: option.splits)

lemma filed_Add: "filed s \<Longrightarrow> filed (snd (ClientLookupSet_Add f s c))"
  by (auto simp: ClientLookupSet_Add_def filed_iff Get_def Nick_def HasNick_def
        update_fresh map_of_eq_None_iff)

lemma filed_Remove: "filed s \<Longrightarrow> filed (snd (ClientLookupSet_Remove f s c))"
  by (auto simp: ClientLookupSet_Remove_def filed_iff delete_filter distinct_map_filter)

lemma filed_step: "filed s \<Longrightarrow> filed (client_step s op)"
  by (cases op) (simp_all add: filed_Add filed_Remove)

lemma filed_new: "filed (NewClientLookupSet found)"
  by (simp add: filed_def NewClientLookupSet_def)

lemma filed_foldl: "filed s \<Longrightarrow> filed (foldl client_step s ops)"
  by (induction ops arbitrary: s) (simp_all add: filed_step)

lemma filed_run: "filed (run_clients found ops)"
  by (simp add: run_clients_def filed_foldl filed_new)

lemma folded_nicks_filed: "filed s \<Longrightarrow> folded_nicks s = map fst (byNick s)"
  by (simp add: folded_nicks_def filed_iff)

lemma in_use_has_nick:
  assumes "filed s" and "Get s (nick c) \<noteq> None"
  shows "HasNick c"
proof -
  from assms(2) obtain c' where "map_of (byNick s) (ToLower (nick c)) = Some c'"
    by (auto simp: Get_def)
  then have "(ToLower (nick c), c') \<in> set (byNick s)" by (rule map_of_SomeD)
  then have "ToLower (nick c) = ToLower (nick c')" and "nick c' \<noteq> []"
    using assms(1) by (auto simp: filed_iff)
  then show ?thesis by (metis HasNick_def ToLower_Nil)
qed


lemma coordinated_row:
  "coordinated s \<Longrightarrow> r \<in> set (rows (db s)) \<Longrightarrow>
   \<exists>c. map_of (byNick s) (ToLower (fst r)) = Some c \<and> r = (nick c, UserHost c)"
  by (simp add: coordinated_iff)

lemma coordinated_entry:
  "coordinated s \<Longrightarrow> e \<in> set (byNick s) \<Longrightarrow>
   (nick (snd e), UserHost (snd e)) \<in> set (rows (db s))"
  by (simp add: coordinated_iff)

lemma insert_succeeds:
  assumes co: "coordinated s" and free: "Get s (nick c) = None" and uh: "userhost_free s c"
  shows "sql_insert ExecOk (rows (db s)) (nick c, UserHost c) =
         Inr (rows (db s) @ [(nick c, UserHost c)])"
proof -
  have "\<not> nocase_eq (fst old) (nick c)" if mem: "old \<in> set (rows (db s))" for old
  proof
    assume "nocase_eq (fst old) (nick c)"
    then have "ToLower (fst old) = ToLower (nick c)" by (rule nocase_ToLower)
    moreover obtain c' where "map_of (byNick s) (ToLower (fst old)) = Some c'"
      using coordinated_row [OF co mem] by blast
    ultimately show False using free by (simp add: Get_def)
  qed
  moreover have "\<not> nocase_eq (snd old) (UserHost c)" if "old \<in> set (rows (db s))" for old
    using uh that by (auto simp: userhost_free_def list_ex_iff String_def)
  ultimately show ?thesis by (auto simp: sql_insert_def list_ex_iff)
qed

lemma coordinated_Add:
  assumes co: "coordinated s"
    and ok: "fst (ClientLookupSet_Add f s c) \<noteq> None \<or> (f = ExecOk \<and> userhost_free s c)"
  shows "coordinated (snd (ClientLookupSet_Add f s c))"
proof (cases "HasNick c \<and> Get s (nick c) = None")
  case False
  then show ?thesis using co by (auto simp: ClientLookupSet_Add_def)
next
  case True
  then have free: "Get s (nick c) = None" and uh: "userhost_free s c" and f: "f = ExecOk"
    using ok by (auto simp: ClientLookupSet_Add_def)
  let ?K = "ToLower (nick c)"
  have fresh: "map_of (byNick s) ?K = None" using free by (simp add: Get_def)
  have s': "snd (ClientLookupSet_Add f s c) =
      s\<lparr>byNick := byNick s @ [(?K, c)], db := (db s)\<lparr>rows := rows (db s) @ [(nick c, UserHost c)]\<rparr>\<rparr>"
    using True insert_succeeds [OF co free uh] fresh f
    by (simp add: ClientLookupSet_Add_def ClientDB_Add_def Nick_def String_def
          update_fresh map_of_eq_None_iff)
  show ?thesis
    unfolding s' using co fresh by (auto simp: coordinated_iff map_add_Some_iff)
qed

lemma coordinated_Remove:
  assumes co: "coordinated s" and fi: "filed s"
    and ok: "fst (ClientLookupSet_Remove f s c) \<noteq> None \<or> f = ExecOk"
  shows "coordinated (snd (ClientLookupSet_Remove f s c))"
proof (cases "HasNick c \<and> Get s (nick c) = Some c")
  case False
  then show ?thesis using co by (auto simp: ClientLookupSet_Remove_def)
next
  case True
  then have f: "f = ExecOk"
    using ok by (auto simp: ClientLookupSet_Remove_def)
  let ?K = "ToLower (nick c)"
  have here: "map_of (byNick s) ?K = Some c" using True by (simp add: Get_def)
  have s': "snd (ClientLookupSet_Remove f s c) =
      s\<lparr>byNick := filter (\<lambda>e. fst e \<noteq> ?K) (byNick s),
        db := (db s)\<lparr>rows := filter (\<lambda>old. \<not> nocase_eq (fst old) (nick c)) (rows (db s))\<rparr>\<rparr>"
    using True f
    by (simp add: ClientLookupSet_Remove_def ClientDB_Remove_def sql_delete_def Nick_def
          String_def delete_filter)
  have entries: "(nick (snd e), UserHost (snd e)) \<in> set (rows (db s)) \<and>
                 \<not> nocase_eq (nick (snd e)) (nick c)"
    if "e \<in> set (byNick s)" and "fst e \<noteq> ?K" for e
  proof -
    have "fst e = ToLower (nick (snd e))" using fi that(1) by (auto simp: filed_iff)
    then have "\<not> nocase_eq (nick (snd e)) (nick c)"
      using that(2) nocase_ToLower by auto
    then show ?thesis using coordinated_entry [OF co that(1)] by simp
  qed
  have rows_ok: "\<exists>c'. map_of (filter (\<lambda>e. fst e \<noteq> ?K) (byNick s)) (ToLower (fst r)) = Some c' \<and>
                     r = (nick c', UserHost c')"
    if mem: "r \<in> set (rows (db s))" and diff: "\<not> nocase_eq (fst r) (nick c)" for r
  proof -
    obtain c' where c': "map_of (byNick s) (ToLower (fst r)) = Some c'" "r = (nick c', UserHost c')"
      using coordinated_row [OF co mem] by blast
    have "ToLower (fst r) \<noteq> ?K"
    proof
      assume "ToLower (fst r) = ?K"
      then have "c' = c" using c'(1) here by simp
      then show False using c'(2) diff by (simp add: nocase_refl)
    qed
    then have "map_of (filter (\<lambda>e. fst e \<noteq> ?K) (byNick s)) (ToLower (fst r)) = Some c'"
      using c'(1) by (simp add: delete_filter [symmetric])
    then show ?thesis using c'(2) by blast
  qed
  show ?thesis
    unfolding s' using entries rows_ok by (auto simp: coordinated_iff)
qed

lemma coordinated_foldl:
  "coordinated s \<Longrightarrow> filed s \<Longrightarrow> statements_succeed s ops \<Longrightarrow>
   coordinated (foldl client_step s ops)"
proof (induction ops arbitrary: s)
  case Nil
  then show ?case by simp
next
  case (Cons op ops)
  show ?case
  proof (cases op)
    case (ClientAdd f c)
    then show ?thesis
      using Cons.prems Cons.IH [of "snd (ClientLookupSet_Add f s c)"]
      by (simp add: coordinated_Add filed_Add)
  next
    case (ClientRemove f c)
    then show ?thesis
      using Cons.prems Cons.IH [of "snd (ClientLookupSet_Remove f s c)"]
      by (simp add: coordinated_Remove filed_Remove)
  qed
qed

text \<open>
  C6. In every state reached by \<open>Add\<close> and \<open>Remove\<close> the folded nicknames of the
  clients in the set are pairwise different, and \<open>Add\<close> of a client whose folded nick
  is already mapped returns \<open>ErrNicknameInUse\<close> and leaves the set as it was. This
  holds whatever rows the database file held and whatever the driver does to the
  statements.
\<close>

theorem nick_unique:
  "distinct (folded_nicks (run_clients found ops)) \<and>
   (Get (run_clients found ops) (nick client) \<noteq> None \<longrightarrow>
      ClientLookupSet_Add f (run_clients found ops) client =
        (Some ErrNicknameInUse, run_clients found ops))"
proof -
  have fi: "filed (run_clients found ops)" by (rule filed_run)
  have "distinct (folded_nicks (run_clients found ops))"
    using fi by (simp add: folded_nicks_filed filed_iff)
  moreover have "ClientLookupSet_Add f (run_clients found ops) client =
      (Some ErrNicknameInUse, run_clients found ops)"
    if "Get (run_clients found ops) (nick client) \<noteq> None"
    using that in_use_has_nick [OF fi that] by (simp add: ClientLookupSet_Add_def)
  ultimately show ?thesis by simp
qed

theorem nick_unique_witness:
  "Get (run_clients [] [ClientAdd ExecOk alice]) (nick alice_upper) \<noteq> None \<and>
   ClientLookupSet_Add ExecOk (run_clients [] [ClientAdd ExecOk alice]) alice_upper =
     (Some ErrNicknameInUse, run_clients [] [ClientAdd ExecOk alice]) \<and>
   distinct (folded_nicks
     (run_clients [] [ClientAdd ExecOk alice, ClientAdd ExecOk alice_upper, ClientAdd ExecOk bob]))"
proof -
  have h: "Get (run_clients [] [ClientAdd ExecOk alice]) (nick alice_upper) \<noteq> None"
    by code_simp
  have r: "ClientLookupSet_Add ExecOk (run_clients [] [ClientAdd ExecOk alice]) alice_upper =
     (Some ErrNicknameInUse, run_clients [] [ClientAdd ExecOk alice])"
    using nick_unique [of "[]" "[ClientAdd ExecOk alice]" alice_upper ExecOk] h by blast
  have d: "distinct (folded_nicks
     (run_clients [] [ClientAdd ExecOk alice, ClientAdd ExecOk alice_upper, ClientAdd ExecOk bob]))"
    using nick_unique
      [of "[]" "[ClientAdd ExecOk alice, ClientAdd ExecOk alice_upper, ClientAdd ExecOk bob]" alice ExecOk]
    by blast
  show ?thesis using h r d by blast
qed

text \<open>
  C7, as the code has it. When the database file holds no rows at the start, then
  along every sequence of \<open>Add\<close> and \<open>Remove\<close> in which every statement of the index
  succeeds (the driver runs each INSERT and DELETE, and each client that \<open>Add\<close>
  accepts has a userhost that no row of the index has, up to ASCII case) the nickname
  map and the userhost index hold the same clients.
\<close>

theorem indexes_coordinated:
  "statements_succeed (NewClientLookupSet []) ops \<Longrightarrow> coordinated (run_clients [] ops)"
  unfolding run_clients_def
  by (rule coordinated_foldl)
     (simp_all add: filed_new, simp add: coordinated_def NewClientLookupSet_def NewClientDB_def)

theorem indexes_coordinated_witness:
  "statements_succeed (NewClientLookupSet [])
     [ClientAdd ExecOk alice, ClientAdd ExecOk bob, ClientRemove ExecOk alice] \<and>
   coordinated (run_clients [] [ClientAdd ExecOk alice, ClientAdd ExecOk bob, ClientRemove ExecOk alice])"
proof -
  have h: "statements_succeed (NewClientLookupSet [])
     [ClientAdd ExecOk alice, ClientAdd ExecOk bob, ClientRemove ExecOk alice]"
    by code_simp
  show ?thesis using h indexes_coordinated [OF h] by (rule conjI)
qed

text \<open>
  C7 as the spec states it fails in three ways. An INSERT is refused: \<open>abc\<close> has
  another nick and the same userhost as \<open>ab\<close>, \<open>Add\<close> returns no error and files
  it in the nickname map, and the index has no row for it. A DELETE fails: \<open>Remove\<close>
  returns no error and takes alice out of the nickname map, and her row stays. The
  database file holds a row of an earlier run: the new set has an empty nickname map
  and that row.
\<close>

theorem indexes_uncoordinated_counterexample:
  "fst (ClientLookupSet_Add ExecOk (run_clients [] [ClientAdd ExecOk ab]) abc) = None \<and>
   Get (run_clients [] [ClientAdd ExecOk ab, ClientAdd ExecOk abc]) (nick abc) = Some abc \<and>
   rows (db (run_clients [] [ClientAdd ExecOk ab, ClientAdd ExecOk abc])) = [(''a'', ''a!b!c@h'')] \<and>
   \<not> coordinated (run_clients [] [ClientAdd ExecOk ab, ClientAdd ExecOk abc]) \<and>
   fst (ClientLookupSet_Remove ExecFault (run_clients [] [ClientAdd ExecOk alice]) alice) = None \<and>
   \<not> coordinated (run_clients [] [ClientAdd ExecOk alice, ClientRemove ExecFault alice]) \<and>
   \<not> coordinated (run_clients [(''carol'', ''carol!c@example.com'')] [])"
  by code_simp

section \<open>Lookups that fail\<close>

lemma FindAll_loop_scanned:
  "FindAll_loop clients (map Inr ns @ rest) found =
   FindAll_loop clients rest (found \<union> set (List.map_filter (Get clients) ns))"
  by (induction ns arbitrary: found) (auto simp: List.map_filter_simps split: option.splits)

lemma FindAll_NoFault:
  "FindAll NoFault clients uh =
   set (List.map_filter (Get clients)
         (sql_select_like (rows (db clients)) (QuoteLike (ExpandUserHost uh))))"
  using FindAll_loop_scanned [of clients _ "[]" "{}"]
  by (simp add: FindAll_def Query_def)

lemma FindAll_ScanFault:
  "FindAll (ScanFault n) clients uh =
   set (List.map_filter (Get clients)
         (take n (sql_select_like (rows (db clients)) (QuoteLike (ExpandUserHost uh)))))"
  using FindAll_loop_scanned [of clients _ "[]" "{}"]
        FindAll_loop_scanned [of clients _ "[Inl ErrScan]" "{}"]
  by (simp add: FindAll_def Query_def Let_def)

text \<open>
  C8, as the code has it. When the query fails \<open>FindAll\<close> returns the empty set and
  \<open>Find\<close> returns nil; when the scan fails \<open>Find\<close> returns nil and \<open>FindAll\<close>
  returns the clients of the rows scanned before the failing one. A nickname of the
  index that the nickname map does not resolve is skipped, and the other rows still
  give their clients.
\<close>

theorem lookup_failures:
  "FindAll QueryFault clients userhost = {} \<and>
   Find QueryFault clients userhost = None \<and>
   Find (ScanFault 0) clients userhost = None \<and>
   FindAll (ScanFault n) clients userhost =
     set (List.map_filter (Get clients)
           (take n (sql_select_like (rows (db clients)) (QuoteLike (ExpandUserHost userhost))))) \<and>
   FindAll NoFault clients userhost =
     set (List.map_filter (Get clients)
           (sql_select_like (rows (db clients)) (QuoteLike (ExpandUserHost userhost))))"
  by (simp add: FindAll_NoFault FindAll_ScanFault)
     (simp add: FindAll_def Find_def Query_def QueryRow_def split: list.splits)

theorem lookup_failures_witness:
  "FindAll QueryFault stale_set ''*'' = {} \<and>
   Find QueryFault stale_set ''*'' = None \<and>
   Find (ScanFault 0) stale_set ''*'' = None \<and>
   FindAll (ScanFault 1) stale_set ''*'' = {} \<and>
   FindAll NoFault stale_set ''*'' = {bob}"
  using lookup_failures [of stale_set "''*''" 1]
  by (simp add: stale_set_def sql_select_like_def QuoteLike_def ExpandUserHost_def Contains_def
        String_def likeQuoter_def List.map_filter_simps Get_def ToLower_def fold_char_def
        ascii_lower_def backslash_def Let_def bob_def)

text \<open>
  C8 as the spec states it fails when the scan of a later row fails: the client of
  the first row is returned.
\<close>

theorem FindAll_partial_counterexample:
  "FindAll (ScanFault 1) (run_clients [] [ClientAdd ExecOk alice, ClientAdd ExecOk bob]) ''*'' = {alice} \<and>
   FindAll (ScanFault 1) (run_clients [] [ClientAdd ExecOk alice, ClientAdd ExecOk bob]) ''*'' \<noteq> {}"
  by code_simp

end
